theory Spec2Isabelle
  imports Complex_Main "HOL-Library.Word" "HOL-Library.Multiset" "HOL-Library.Code_Target_Nat"
begin

section \<open>Common model: errors, machine integers, loops\<close>

text \<open>
  The program is a C++20 Buddhabrot renderer.  Undefined behaviour of the source (an
  index outside a vector, \<open>front()\<close> of an empty vector, a floating value converted to
  an integer type that cannot hold it) and its exceptions (\<open>std::invalid_argument\<close>,
  \<open>std::length_error\<close>) are values of \<open>error\<close>.  Whether an allocation of a
  permitted size succeeds depends on the memory of the machine; \<open>std::bad_alloc\<close> is
  outside the model.
\<close>

datatype error =
  Out_Of_Range
  | Empty_Front
  | Conversion_Overflow
  | Invalid_Argument string
  | Length_Error

text \<open>
  \<open>std::uint64_t\<close> arithmetic on indices is written over the integers with the
  wrap-around explicit: \<open>u64 i\<close> is the value an unsigned 64-bit variable holds after
  the mathematical result \<open>i\<close> is stored in it.
\<close>

definition u64 :: "int \<Rightarrow> nat" where
  "u64 i = nat (i mod 2 ^ 64)"

text \<open>\<open>v[i]\<close> and \<open>v[i] = x\<close> on a \<open>std::vector\<close>: outside the vector the behaviour is undefined.\<close>

definition load :: "'a list \<Rightarrow> nat \<Rightarrow> error + 'a" where
  "load xs i = (if i < length xs then Inr (xs ! i) else Inl Out_Of_Range)"

definition store :: "'a list \<Rightarrow> nat \<Rightarrow> 'a \<Rightarrow> error + 'a list" where
  "store xs i v = (if i < length xs then Inr (xs[i := v]) else Inl Out_Of_Range)"

text \<open>
  A counted \<open>for\<close> loop whose body may fail: the indices are visited in order, the
  state is threaded through, and the first failure ends the loop.
\<close>

fun for_loop :: "nat list \<Rightarrow> (nat \<Rightarrow> 's \<Rightarrow> error + 's) \<Rightarrow> 's \<Rightarrow> error + 's" where
  "for_loop [] body s = Inr s"
| "for_loop (k # ks) body s =
     (case body k s of Inl e \<Rightarrow> Inl e | Inr s' \<Rightarrow> for_loop ks body s')"

section \<open>Bitmap transforms (\<open>im_edge\<close>, \<open>im_invert\<close>, \<open>im_or\<close>, \<open>im_dilate\<close>)\<close>

text \<open>
  \<open>in_bounds\<close> is the lambda of the same name: \<open>idx >= 0 && idx < im.size()\<close> on a
  signed 64-bit index.
\<close>

definition in_bounds :: "bool list \<Rightarrow> int \<Rightarrow> bool" where
  "in_bounds im idx = (idx \<ge> 0 \<and> idx < int (length im))"

text \<open>
  \<open>im_edge\<close>: \<open>result[i] = im[i] && any_of(deltas, in_bounds(i + delta) && !im[i + delta])\<close>
  with \<open>deltas = {-size, -1, 1, size}\<close>.  Every read is guarded by \<open>in_bounds\<close> or by the
  loop bound, so no access leaves the vector.
\<close>

definition im_edge :: "bool list \<Rightarrow> int \<Rightarrow> bool list" where
  "im_edge im size' =
     map (\<lambda>i. im ! i \<and>
            list_ex (\<lambda>delta. in_bounds im (int i + delta) \<and> \<not> im ! nat (int i + delta))
              [- size', - 1, 1, size'])
       [0..<length im]"

definition im_invert :: "bool list \<Rightarrow> bool list" where
  "im_invert im = map (\<lambda>v. \<not> v) im"

text \<open>
  \<open>im_or\<close>: \<open>std::transform\<close> over the whole of \<open>im1\<close>, reading as many elements of
  \<open>im2\<close>; a shorter \<open>im2\<close> is read past its end.
\<close>

definition im_or :: "bool list \<Rightarrow> bool list \<Rightarrow> error + bool list" where
  "im_or im1 im2 =
     (if length im2 < length im1 then Inl Out_Of_Range
      else Inr (map (\<lambda>(v1, v2). v1 \<or> v2) (zip im1 im2)))"

definition im_dilate :: "bool list \<Rightarrow> int \<Rightarrow> bool list" where
  "im_dilate im size' =
     map (\<lambda>i. list_ex (\<lambda>delta. in_bounds im (int i + delta) \<and> im ! nat (int i + delta))
                 [- size', - 1, 0, 1, size'])
       [0..<length im]"

text \<open>
  The specification's reading of \<open>edge\<close>, written down from its words for comparison:
  cell \<open>(x, y)\<close> of an \<open>S\<close>-by-\<open>S\<close> grid has the neighbours up, left, right and down that
  lie inside the grid, and is an edge cell iff it is set and one of them is clear.
\<close>

definition grid_neighbours :: "nat \<Rightarrow> nat \<Rightarrow> nat \<Rightarrow> (nat \<times> nat) list" where
  "grid_neighbours S x y =
     (if 0 < y then [(x, y - 1)] else []) @
     (if 0 < x then [(x - 1, y)] else []) @
     (if x + 1 < S then [(x + 1, y)] else []) @
     (if y + 1 < S then [(x, y + 1)] else [])"

definition edge_spec :: "bool list \<Rightarrow> nat \<Rightarrow> nat \<Rightarrow> bool" where
  "edge_spec B S i =
     (B ! i \<and> list_ex (\<lambda>(x, y). \<not> B ! (y * S + x)) (grid_neighbours S (i mod S) (i div S)))"

section \<open>Colormap lookup (\<open>Colormap::by_name\<close>)\<close>

text \<open>
  The colour tables \<open>viridis<T>\<close>, ..., \<open>mako<T>\<close> come from \<open>cmap_data.h\<close>, which is not
  part of the sources at hand; they are a parameter of the model.
\<close>

type_synonym rgb = "rat \<times> rat \<times> rat"

record cmap_data =
  viridis :: "rgb list"
  inferno :: "rgb list"
  plasma :: "rgb list"
  magma :: "rgb list"
  rocket :: "rgb list"
  mako :: "rgb list"

record colormap =
  cmap :: "rgb list"
  vmin :: rat
  vmax :: rat

text \<open>The constructor \<open>Colormap(cmap)\<close> with the default members \<open>vmin = 0\<close>, \<open>vmax = 1\<close>.\<close>

definition Colormap :: "rgb list \<Rightarrow> colormap" where
  "Colormap tab = \<lparr>cmap = tab, vmin = 0, vmax = 1\<rparr>"

definition by_name :: "cmap_data \<Rightarrow> string \<Rightarrow> error + colormap" where
  "by_name D name =
     (if name = ''viridis'' then Inr (Colormap (viridis D))
      else if name = ''inferno'' then Inr (Colormap (inferno D))
      else if name = ''plasma'' then Inr (Colormap (plasma D))
      else if name = ''magma'' then Inr (Colormap (magma D))
      else if name = ''rocket'' then Inr (Colormap (rocket D))
      else if name = ''mako'' then Inr (Colormap (mako D))
      else Inl (Invalid_Argument ''Invalid colormap name''))"

definition catalog :: "string list" where
  "catalog = [''viridis'', ''inferno'', ''plasma'', ''magma'', ''rocket'', ''mako'']"


section \<open>Arithmetic of the template parameter \<open>T\<close>\<close>

text \<open>
  \<open>float\<close>, \<open>double\<close> and the template parameter \<open>T\<close> are modelled by the rationals:
  the arithmetic is exact and the rounding of the machine formats is left out.  The
  concrete inputs evaluated below are dyadic fractions on which the machine
  arithmetic is exact as well.  \<open>std::complex<T>\<close> is a pair (real, imaginary).
\<close>

type_synonym cplx = "rat \<times> rat"

text \<open>\<open>std::lerp(a, b, t)\<close> is \<open>a + t (b - a)\<close>.\<close>

definition lerp :: "rat \<Rightarrow> rat \<Rightarrow> rat \<Rightarrow> rat" where
  "lerp a b t = a + t * (b - a)"

text \<open>\<open>std::clamp(v, lo, hi)\<close>.\<close>

definition clamp :: "rat \<Rightarrow> rat \<Rightarrow> rat \<Rightarrow> rat" where
  "clamp v lo hi = (if v < lo then lo else if hi < v then hi else v)"

definition remap :: "rat \<Rightarrow> rat \<Rightarrow> rat \<Rightarrow> rat \<Rightarrow> rat \<Rightarrow> rat" where
  "remap from_lo from_hi to_lo to_hi v =
     lerp to_lo to_hi (clamp ((v - from_lo) / (from_hi - from_lo)) 0 1)"

text \<open>\<open>std::norm(z)\<close>, the squared magnitude, and the orbit step \<open>z * z + c\<close>.\<close>

definition cnorm :: "cplx \<Rightarrow> rat" where
  "cnorm z = fst z * fst z + snd z * snd z"

definition cstep :: "cplx \<Rightarrow> cplx \<Rightarrow> cplx" where
  "cstep z c = (fst z * fst z - snd z * snd z + fst c, fst z * snd z + snd z * fst z + snd c)"

text \<open>
  A floating value stored in a \<open>std::int64_t\<close>: the fraction is dropped (rounding
  toward zero); a value outside the range of the type is undefined behaviour.
\<close>

definition to_int64 :: "rat \<Rightarrow> error + int" where
  "to_int64 v =
     (let i = (if 0 \<le> v then \<lfloor>v\<rfloor> else \<lceil>v\<rceil>)
      in if - (2 ^ 63) \<le> i \<and> i < 2 ^ 63 then Inr i else Inl Conversion_Overflow)"

section \<open>Random numbers\<close>

text \<open>
  The engine and the distributions of \<open><random>\<close> belong to the standard library, not
  to the program; they are a parameter \<open>G\<close> of the model.  An engine state has type
  \<open>'e\<close>; drawing from a distribution returns the value and the next engine state.
  \<open>default_engine\<close> is \<open>std::default_random_engine eng;\<close>, \<open>seeded_engine s\<close> is
  \<open>std::default_random_engine eng(s);\<close>, \<open>uniform_real a b\<close> is
  \<open>std::uniform_real_distribution(a, b)\<close>, \<open>bernoulli p\<close> is
  \<open>std::bernoulli_distribution(p)\<close> and \<open>uniform_int a b\<close> is
  \<open>std::uniform_int_distribution(a, b)\<close> on \<open>unsigned long\<close>.  The value that
  \<open>std::random_device\<close> returns is an input \<open>rd\<close> of the function that declares the
  device.
\<close>

record 'e rng =
  default_engine :: 'e
  seeded_engine :: "nat \<Rightarrow> 'e"
  uniform_real :: "rat \<Rightarrow> rat \<Rightarrow> 'e \<Rightarrow> rat \<times> 'e"
  bernoulli :: "rat \<Rightarrow> 'e \<Rightarrow> bool \<times> 'e"
  uniform_int :: "nat \<Rightarrow> nat \<Rightarrow> 'e \<Rightarrow> nat \<times> 'e"

text \<open>
  A small linear congruential generator (modulus 16, full period) with distributions
  that scale its output; it serves to run the model on concrete inputs.  The theorems
  below hold for every generator.
\<close>

definition lcg_next :: "nat \<Rightarrow> nat" where
  "lcg_next e = (5 * e + 3) mod 16"

definition lcg_canonical :: "nat \<Rightarrow> rat" where
  "lcg_canonical e = of_nat e / 16"

definition lcg_rng :: "nat rng" where
  "lcg_rng =
     \<lparr>default_engine = 1,
      seeded_engine = (\<lambda>s. s mod 16),
      uniform_real = (\<lambda>a b e. (a + (b - a) * lcg_canonical (lcg_next e), lcg_next e)),
      bernoulli = (\<lambda>p e. (lcg_canonical (lcg_next e) < p, lcg_next e)),
      uniform_int = (\<lambda>a b e. (a + lcg_next e mod (b - a + 1), lcg_next e))\<rparr>"

section \<open>Lattice rasterizer (\<open>binary_mandelbrot\<close>)\<close>

text \<open>
  The escape loop \<open>for (i = 0; i < max_iter && norm(z) < 4; ++i) z = z * z + c;\<close>.
  The first argument counts the iterations that remain, \<open>max_iter - i\<close>; the
  result is \<open>z\<close> at loop exit.
\<close>

fun mandel_orbit :: "nat \<Rightarrow> cplx \<Rightarrow> cplx \<Rightarrow> cplx" where
  "mandel_orbit 0 c z = z"
| "mandel_orbit (Suc n) c z = (if cnorm z < 4 then mandel_orbit n c (cstep z c) else z)"

text \<open>
  The body of the inner loop for cell \<open>(x, y)\<close>: two offsets are drawn (real part
  first), the orbit of the jittered point is run, and \<open>result[y * size + x]\<close> is set
  when the orbit ends inside the radius.  For \<open>size = 0\<close> no cell is visited and
  \<open>delta\<close> is never used.
\<close>

definition mandel_cell ::
  "'e rng \<Rightarrow> nat \<Rightarrow> nat \<Rightarrow> nat \<Rightarrow> nat \<Rightarrow> bool list \<times> 'e \<Rightarrow> error + bool list \<times> 'e" where
  "mandel_cell G size' max_iter y x s =
     (let (result, eng) = s;
          delta = 4 / of_nat size';
          im = lerp (- 2) 2 (of_nat y / of_nat size');
          re = lerp (- 2) 2 (of_nat x / of_nat size');
          (o1, eng1) = uniform_real G (- (1 / 4) * delta) ((1 / 4) * delta) eng;
          (o2, eng2) = uniform_real G (- (1 / 4) * delta) ((1 / 4) * delta) eng1;
          c = (re + o1, im + o2);
          z = mandel_orbit max_iter c (0, 0)
      in if cnorm z < 4
         then (case store result (u64 (int y * int size' + int x)) True of
                 Inl e \<Rightarrow> Inl e
               | Inr r \<Rightarrow> Inr (r, eng2))
         else Inr (result, eng2))"

text \<open>
  The random device \<open>rd\<close> is declared and never read; the engine is
  default-constructed.  The result vector has \<open>size * size\<close> (unsigned 64-bit
  product) cells, all false.
\<close>

definition binary_mandelbrot :: "'e rng \<Rightarrow> nat \<Rightarrow> nat \<Rightarrow> nat \<Rightarrow> error + bool list" where
  "binary_mandelbrot G rd size' max_iter =
     (case for_loop [0..<size'] (\<lambda>y. for_loop [0..<size'] (mandel_cell G size' max_iter y))
             (replicate (u64 (int size' * int size')) False, default_engine G) of
        Inl e \<Rightarrow> Inl e
      | Inr (result, eng) \<Rightarrow> Inr result)"

text \<open>
  The engine state after \<open>k\<close> offsets have been drawn in a call for side length
  \<open>size\<close>, and from it the jittered point of cell \<open>(x, y)\<close>: the cells are visited row
  by row and each draws two offsets.
\<close>

definition jitter_engine :: "'e rng \<Rightarrow> nat \<Rightarrow> nat \<Rightarrow> 'e" where
  "jitter_engine G size' k =
     ((\<lambda>e. snd (uniform_real G (- (1 / 4) * (4 / of_nat size')) ((1 / 4) * (4 / of_nat size')) e)) ^^ k)
       (default_engine G)"

definition cell_point :: "'e rng \<Rightarrow> nat \<Rightarrow> nat \<Rightarrow> nat \<Rightarrow> cplx" where
  "cell_point G size' y x =
     (let lo = - (1 / 4) * (4 / of_nat size');
          hi = (1 / 4) * (4 / of_nat size');
          (o1, eng1) = uniform_real G lo hi (jitter_engine G size' (2 * (y * size' + x)));
          (o2, eng2) = uniform_real G lo hi eng1
      in (lerp (- 2) 2 (of_nat x / of_nat size') + o1,
          lerp (- 2) 2 (of_nat y / of_nat size') + o2))"

section \<open>Good-point collection (\<open>im_collect_points\<close>)\<close>



section \<open>Orbit sampler (\<open>BuddhabrotThread\<close>)\<close>

text \<open>
  The recording loop
  \<open>for (i = 0; i < max_iter && norm(z) < 8; ++i) { z = z * z + c; points.push_back(z); }\<close>,
  again counting the remaining iterations; the result is \<open>z\<close> at loop exit and the
  recorded points in order.
\<close>

fun orbit_points :: "nat \<Rightarrow> cplx \<Rightarrow> cplx \<Rightarrow> cplx list \<Rightarrow> cplx \<times> cplx list" where
  "orbit_points 0 c z points = (z, points)"
| "orbit_points (Suc n) c z points =
     (if cnorm z < 8 then orbit_points n c (cstep z c) (points @ [cstep z c]) else (z, points))"

text \<open>
  \<open>std::int64_t x = remap<T>(-2.0, 2.0, 0, size - 1, v)\<close>, where \<open>size - 1\<close> is an
  unsigned 64-bit difference.
\<close>

definition hist_index :: "nat \<Rightarrow> rat \<Rightarrow> error + int" where
  "hist_index size' v = to_int64 (remap (- 2) 2 0 (of_nat (u64 (int size' - 1))) v)"

text \<open>\<open>counts[i]++\<close> on a vector of \<open>std::uint64_t\<close>.\<close>

definition increment :: "64 word list \<Rightarrow> nat \<Rightarrow> error + 64 word list" where
  "increment cs i = (if i < length cs then Inr (cs[i := cs ! i + 1]) else Inl Out_Of_Range)"

text \<open>
  The body of the loop over the recorded points: a point outside \<open>[-2, 2]\<close> on either
  axis is skipped, else the cell and its mirror are incremented.  The index
  expressions are unsigned 64-bit.
\<close>

definition plot_point :: "nat \<Rightarrow> 64 word list \<Rightarrow> cplx \<Rightarrow> error + 64 word list" where
  "plot_point size' cs z_sample =
     (if \<bar>fst z_sample\<bar> > 2 \<or> \<bar>snd z_sample\<bar> > 2 then Inr cs
      else case hist_index size' (fst z_sample) of
             Inl e \<Rightarrow> Inl e
           | Inr x \<Rightarrow>
               (case hist_index size' (snd z_sample) of
                  Inl e \<Rightarrow> Inl e
                | Inr y \<Rightarrow>
                    (case increment cs (u64 (y * int size' + x)) of
                       Inl e \<Rightarrow> Inl e
                     | Inr cs1 \<Rightarrow> increment cs1 (u64 ((int size' - y - 1) * int size' + x)))))"

fun plot_points :: "nat \<Rightarrow> 64 word list \<Rightarrow> cplx list \<Rightarrow> error + 64 word list" where
  "plot_points size' cs [] = Inr cs"
| "plot_points size' cs (z_sample # zs) =
     (case plot_point size' cs z_sample of
        Inl e \<Rightarrow> Inl e
      | Inr cs' \<Rightarrow> plot_points size' cs' zs)"

text \<open>
  One sample once its start point \<open>c\<close> is chosen: record the orbit, drop it if it
  ends with \<open>norm(z) < 4\<close>, else plot the recorded points.
\<close>

definition sample_point :: "nat \<Rightarrow> nat \<Rightarrow> 64 word list \<Rightarrow> cplx \<Rightarrow> error + 64 word list" where
  "sample_point size' max_iter cs c =
     (let (z, points) = orbit_points max_iter c (0, 0) []
      in if cnorm z < 4 then Inr cs else plot_points size' cs points)"

record buddhabrot_thread =
  size' :: nat
  max_iter :: nat
  counts :: "64 word list"
  p_uniform :: rat
  good_points :: "(rat \<times> rat) list"
  point_radius :: rat
  progress :: nat

text \<open>
  The choice of the start point.  \<open>point_idx_dist\<close> ranges over
  \<open>[0, good_points.size() - 1]\<close>, an unsigned 64-bit difference; \<open>good_points[idx]\<close>
  is a plain vector access.
\<close>

definition propose :: "'e rng \<Rightarrow> buddhabrot_thread \<Rightarrow> 'e \<Rightarrow> error + cplx \<times> 'e" where
  "propose G t eng =
     (let (use_uniform, eng1) = bernoulli G (p_uniform t) eng
      in if use_uniform
         then (let (re, eng2) = uniform_real G (- 2) 2 eng1;
                   (im, eng3) = uniform_real G (- 2) 2 eng2
               in Inr ((re, im), eng3))
         else (let (idx, eng2) = uniform_int G 0 (u64 (int (length (good_points t)) - 1)) eng1
               in case load (good_points t) idx of
                    Inl e \<Rightarrow> Inl e
                  | Inr (rmid, imid) \<Rightarrow>
                      (let (re, eng3) = uniform_real G (rmid - point_radius t) (rmid + point_radius t) eng2;
                           (im, eng4) = uniform_real G (imid - point_radius t) (imid + point_radius t) eng3
                       in Inr ((re, im), eng4))))"

text \<open>
  \<open>points.reserve(max_iter)\<close> throws \<open>std::length_error\<close> when \<open>max_iter\<close> exceeds
  \<open>max_size()\<close> of the vector.  For \<open>std::vector<std::complex<double>>\<close> (the
  instance \<open>main\<close> uses, 16-byte elements) on a 64-bit platform that bound is
  \<open>(2^63 - 1) / 16\<close>.
\<close>

definition points_max_size :: nat where
  "points_max_size = (2 ^ 63 - 1) div 16"

text \<open>
  One iteration \<open>k\<close> of the sampling loop, on the engine and the thread object:
  \<open>progress\<close> is stored when \<open>k % 1000 == 0\<close>, then the start point is chosen and
  the sample taken.
\<close>

definition sample_iter ::
  "'e rng \<Rightarrow> nat \<Rightarrow> 'e \<times> buddhabrot_thread \<Rightarrow> error + 'e \<times> buddhabrot_thread" where
  "sample_iter G k s =
     (let (eng, t) = s;
          t1 = (if k mod 1000 = 0 then t\<lparr>progress := u64 (int k + 1)\<rparr> else t)
      in case propose G t1 eng of
           Inl e \<Rightarrow> Inl e
         | Inr (c, eng') \<Rightarrow>
             (case sample_point (size' t1) (max_iter t1) (counts t1) c of
                Inl e \<Rightarrow> Inl e
              | Inr cs \<Rightarrow> Inr (eng', t1\<lparr>counts := cs\<rparr>)))"

text \<open>
  The engine and the thread object after the first \<open>k\<close> iterations of the loop of
  \<open>sample\<close>; the engine is seeded with the value \<open>rd\<close> of the random device.
\<close>

definition sample_state ::
  "'e rng \<Rightarrow> nat \<Rightarrow> buddhabrot_thread \<Rightarrow> nat \<Rightarrow> error + 'e \<times> buddhabrot_thread" where
  "sample_state G rd t k = for_loop [0..<k] (sample_iter G) (seeded_engine G rd, t)"

text \<open>
  \<open>sample(n_points)\<close>: the reservation, the loop over all \<open>n_points\<close> samples, and the
  last store \<open>progress = n_points\<close>.
\<close>

definition sample ::
  "'e rng \<Rightarrow> nat \<Rightarrow> buddhabrot_thread \<Rightarrow> nat \<Rightarrow> error + buddhabrot_thread" where
  "sample G rd t n_points =
     (if points_max_size < max_iter t then Inl Length_Error
      else case sample_state G rd t n_points of
             Inl e \<Rightarrow> Inl e
           | Inr (eng, t') \<Rightarrow> Inr (t'\<lparr>progress := n_points\<rparr>))"

section \<open>Aggregator (\<open>merge_results\<close>)\<close>

text \<open>
  One \<open>std::transform\<close> of the loop: it runs over the whole of \<open>result\<close> and reads as
  many cells of \<open>thread.counts\<close>; a shorter \<open>counts\<close> is read past its end.  The sum
  is that of \<open>std::uint64_t\<close>.
\<close>

definition merge_one :: "buddhabrot_thread \<Rightarrow> 64 word list \<Rightarrow> error + 64 word list" where
  "merge_one thread result =
     (if length (counts thread) < length result then Inl Out_Of_Range
      else Inr (map (\<lambda>(cur, res). cur + res) (zip result (counts thread))))"

fun merge_loop :: "buddhabrot_thread list \<Rightarrow> 64 word list \<Rightarrow> error + 64 word list" where
  "merge_loop [] result = Inr result"
| "merge_loop (thread # threads) result =
     (case merge_one thread result of
        Inl e \<Rightarrow> Inl e
      | Inr result' \<Rightarrow> merge_loop threads result')"

text \<open>\<open>threads.front()\<close> of an empty vector is undefined behaviour.\<close>

definition merge_results :: "buddhabrot_thread list \<Rightarrow> error + 64 word list" where
  "merge_results threads =
     (case threads of
        [] \<Rightarrow> Inl Empty_Front
      | front # _ \<Rightarrow> merge_loop threads (replicate (u64 (int (size' front) * int (size' front))) 0))"

section \<open>Auxiliary notions for the statements\<close>


text \<open>
  The state of the rasterizer's loops when the first \<open>k\<close> cells (row by row) are done:
  the result vector has its full length, the engine has drawn \<open>2 k\<close> offsets, the
  cells done hold their escape test and the others are still false.
\<close>

definition raster_inv :: "'e rng \<Rightarrow> nat \<Rightarrow> nat \<Rightarrow> nat \<Rightarrow> bool list \<times> 'e \<Rightarrow> bool" where
  "raster_inv G S M k s =
     (length (fst s) = S * S \<and> snd s = jitter_engine G S (2 * k) \<and>
      (\<forall>j < k. fst s ! j = (cnorm (mandel_orbit M (cell_point G S (j div S) (j mod S)) (0, 0)) < 4)) \<and>
      (\<forall>j. k \<le> j \<and> j < S * S \<longrightarrow> \<not> fst s ! j))"

section \<open>Properties of the bitmap transforms\<close>

lemma length_im_edge: "length (im_edge im S) = length im"
  by (simp add: im_edge_def)

lemma im_edge_nth:
  assumes "i < length im"
  shows "im_edge im S ! i =
           (im ! i \<and> (\<exists>delta \<in> {- S, - 1, 1, S}.
               in_bounds im (int i + delta) \<and> \<not> im ! nat (int i + delta)))"
  using assms by (simp add: im_edge_def)

lemma im_edge_subset: "i < length im \<Longrightarrow> im_edge im S ! i \<Longrightarrow> im ! i"
  by (simp add: im_edge_def)

lemma im_invert_involution: "im_invert (im_invert im) = im"
  by (simp add: im_invert_def comp_def)

text \<open>
  C1 (the code departs from the claim).  The claim: \<open>edge(B)\<close> marks cell \<open>i\<close> iff
  \<open>B[i]\<close> is set and one of its up/down/left/right grid neighbours is clear, a
  neighbour outside the grid being absent, so that the left/right test never reads a
  cell of another row.  On the 2-by-2 bitmap with only cell 1 (row 0, column 1) clear,
  cell 2 (row 1, column 0) has the grid neighbours 0 and 3, both set, and is no edge
  cell; \<open>im_edge\<close> marks it, because \<open>i - 1 = 1\<close> passes \<open>in_bounds\<close> and is clear.
\<close>

theorem im_edge_reads_previous_row:
  "im_edge [True, False, True, True] 2 = [True, False, True, True] \<and>
   in_bounds [True, False, True, True] (2 - 1) \<and>
   grid_neighbours 2 (2 mod 2) (2 div 2) = [(0, 0), (1, 1)] \<and>
   edge_spec [True, False, True, True] 2 2 = False"
  by (simp add: im_edge_def in_bounds_def grid_neighbours_def edge_spec_def upt_rec)

section \<open>Properties of the colormap lookup\<close>

text \<open>
  C9.  Lookup by name returns a colormap exactly for the six names of the catalog
  (the table of that name with the default value range) and the invalid-argument
  error, and so no colormap, for every other string.
\<close>

theorem by_name_catalog:
  "(name \<in> set catalog \<longrightarrow> (\<exists>cm. by_name D name = Inr cm)) \<and>
   (name \<notin> set catalog \<longrightarrow> by_name D name = Inl (Invalid_Argument ''Invalid colormap name'')) \<and>
   ((\<exists>cm. by_name D name = Inr cm) \<longleftrightarrow> name \<in> set catalog)"
  by (simp add: by_name_def catalog_def)

theorem by_name_catalog_witness:
  "''mako'' \<in> set catalog \<and>
   by_name \<lparr>viridis = [], inferno = [], plasma = [], magma = [], rocket = [], mako = [(0, 0, 1)]\<rparr> ''mako''
     = Inr \<lparr>cmap = [(0, 0, 1)], vmin = 0, vmax = 1\<rparr> \<and>
   ''jet'' \<notin> set catalog \<and>
   by_name \<lparr>viridis = [], inferno = [], plasma = [], magma = [], rocket = [], mako = [(0, 0, 1)]\<rparr> ''jet''
     = Inl (Invalid_Argument ''Invalid colormap name'')"
  using by_name_catalog [of "''mako''" "\<lparr>viridis = [], inferno = [], plasma = [], magma = [], rocket = [], mako = [(0, 0, 1)]\<rparr>"]
    by_name_catalog [of "''jet''" "\<lparr>viridis = [], inferno = [], plasma = [], magma = [], rocket = [], mako = [(0, 0, 1)]\<rparr>"]
  by (simp add: catalog_def by_name_def Colormap_def)

section \<open>Loops\<close>

lemma for_loop_append:
  "for_loop (xs @ ys) body s =
     (case for_loop xs body s of Inl e \<Rightarrow> Inl e | Inr s' \<Rightarrow> for_loop ys body s')"
  by (induction xs arbitrary: s) (auto split: sum.splits)

lemma for_loop_upt_Suc:
  "for_loop [0..<Suc n] body s =
     (case for_loop [0..<n] body s of Inl e \<Rightarrow> Inl e | Inr s' \<Rightarrow> body n s')"
  by (simp add: for_loop_append split: sum.splits)

lemma for_loop_invariant:
  assumes "P 0 s"
    and "\<And>k u u'. k < n \<Longrightarrow> P k u \<Longrightarrow> body k u = Inr u' \<Longrightarrow> P (Suc k) u'"
    and "for_loop [0..<n] body s = Inr s'"
  shows "P n s'"
  using assms(2,3)
proof (induction n arbitrary: s')
  case 0
  with assms(1) show ?case by simp
next
  case (Suc n)
  from Suc.prems(2) obtain u where u: "for_loop [0..<n] body s = Inr u" and b: "body n u = Inr s'"
    by (auto simp: for_loop_upt_Suc simp del: upt_Suc split: sum.splits)
  have "P n u" using Suc.IH [OF _ u] Suc.prems(1) by simp
  then show ?case using Suc.prems(1) [of n u s'] b by simp
qed

lemma for_loop_total:
  assumes "P 0 s"
    and "\<And>k u. k < n \<Longrightarrow> P k u \<Longrightarrow> \<exists>u'. body k u = Inr u' \<and> P (Suc k) u'"
  shows "\<exists>s'. for_loop [0..<n] body s = Inr s' \<and> P n s'"
  using assms(2)
proof (induction n)
  case 0
  with assms(1) show ?case by simp
next
  case (Suc n)
  have "\<exists>u. for_loop [0..<n] body s = Inr u \<and> P n u"
    using Suc.IH Suc.prems by simp
  then obtain u where u: "for_loop [0..<n] body s = Inr u" and p: "P n u" by blast
  from Suc.prems [of n u] p obtain u' where "body n u = Inr u'" "P (Suc n) u'" by auto
  with u show ?case by (simp add: for_loop_upt_Suc del: upt_Suc)
qed

section \<open>Properties of one sample\<close>

text \<open>
  C5.  A sample whose recorded orbit ends with \<open>norm(z) < 4\<close> is dropped: whatever
  points were recorded, whether or not they lie inside the window, the histogram
  after the sample is the histogram before it.
\<close>

theorem non_escaping_orbit_leaves_histogram:
  "cnorm (fst (orbit_points M c (0, 0) [])) < 4 \<Longrightarrow> sample_point S M cs c = Inr cs"
  by (cases "orbit_points M c (0, 0) []") (simp add: sample_point_def)

theorem non_escaping_orbit_leaves_histogram_witness:
  "cnorm (fst (orbit_points 3 (- 1, 0) (0, 0) [])) < 4 \<and>
   snd (orbit_points 3 (- 1, 0) (0, 0) []) = [(- 1, 0), (0, 0), (- 1, 0)] \<and>
   sample_point 2 3 [5, 0, 7, 1] (- 1, 0) = Inr [5, 0, 7, 1]"
proof -
  have h: "cnorm (fst (orbit_points 3 (- 1, 0) (0, 0) [])) < 4" by code_simp
  have p: "snd (orbit_points 3 (- 1, 0) (0, 0) []) = [(- 1, 0), (0, 0), (- 1, 0)]" by code_simp
  show ?thesis
    using h p non_escaping_orbit_leaves_histogram [OF h, of 2 "[5, 0, 7, 1]"] by simp
qed

section \<open>Properties of the proposal with no good points\<close>

lemma propose_empty_edge_biased:
  assumes "good_points t = []" and "\<not> fst (bernoulli G (p_uniform t) eng)"
  shows "propose G t eng = Inl Out_Of_Range"
  using assms by (cases "bernoulli G (p_uniform t) eng") (simp add: propose_def load_def split: prod.splits)

lemma propose_uniform:
  assumes "fst (bernoulli G (p_uniform t) eng)"
  shows "\<exists>c eng'. propose G t eng = Inr (c, eng')"
  using assms by (cases "bernoulli G (p_uniform t) eng") (simp add: propose_def split: prod.splits)

lemma sample_empty_edge_biased:
  assumes "good_points t = []" and "\<not> fst (bernoulli G (p_uniform t) (seeded_engine G rd))"
    and "max_iter t \<le> points_max_size"
  shows "sample G rd t (Suc n) = Inl Out_Of_Range"
proof -
  have "propose G (t\<lparr>progress := u64 (int 0 + 1)\<rparr>) (seeded_engine G rd) = Inl Out_Of_Range"
    using assms(1,2) by (intro propose_empty_edge_biased) simp_all
  then have "sample_iter G 0 (seeded_engine G rd, t) = Inl Out_Of_Range"
    by (simp add: sample_iter_def)
  then have "sample_state G rd t (Suc n) = Inl Out_Of_Range"
    by (simp add: sample_state_def upt_conv_Cons del: upt_Suc)
  then show ?thesis using assms(3) by (simp add: sample_def)
qed

text \<open>
  C2 (the code departs from the claim).  The claim: an empty good-point sequence
  never leads to an out-of-range index selection or an out-of-bounds access.  With no
  good points the bound of the index distribution, \<open>good_points.size() - 1\<close>, wraps to
  \<open>2^64 - 1\<close>, and the first sample whose Bernoulli trial fails (here the mix
  probability is 0) reads \<open>good_points[idx]\<close> in the empty vector.  There is no guard.
\<close>

theorem sample_empty_good_points_out_of_range:
  "u64 (int (length ([]::(rat \<times> rat) list)) - 1) = 18446744073709551615 \<and>
   bernoulli lcg_rng 0 (seeded_engine lcg_rng 7) = (False, 6) \<and>
   sample lcg_rng 7 \<lparr>size' = 2, max_iter = 3, counts = [0, 0, 0, 0], p_uniform = 0,
        good_points = [], point_radius = 1, progress = 0\<rparr> 1 = Inl Out_Of_Range"
proof -
  have "u64 (int (length ([]::(rat \<times> rat) list)) - 1) = 18446744073709551615"
    by (simp add: u64_def)
  moreover have "bernoulli lcg_rng 0 (seeded_engine lcg_rng 7) = (False, 6)"
    by (simp add: lcg_rng_def lcg_next_def lcg_canonical_def)
  moreover have "sample lcg_rng 7 \<lparr>size' = 2, max_iter = 3, counts = [0, 0, 0, 0], p_uniform = 0,
        good_points = [], point_radius = 1, progress = 0\<rparr> 1 = Inl Out_Of_Range"
    by code_simp
  ultimately show ?thesis by simp
qed

section \<open>Properties of the aggregator\<close>

lemma sum_list_map_zero: "(\<And>x. x \<in> set xs \<Longrightarrow> f x = (0::64 word)) \<Longrightarrow> sum_list (map f xs) = 0"
  by (induction xs) auto

lemma merge_loop_sum:
  assumes "\<forall>t \<in> set ts. length r \<le> length (counts t)"
  shows "\<exists>r'. merge_loop ts r = Inr r' \<and> length r' = length r \<and>
           (\<forall>i < length r. r' ! i = r ! i + sum_list (map (\<lambda>t. counts t ! i) ts))"
  using assms
proof (induction ts arbitrary: r)
  case Nil
  then show ?case by simp
next
  case (Cons t ts)
  let ?r1 = "map (\<lambda>(cur, res). cur + res) (zip r (counts t))"
  have len: "length r \<le> length (counts t)" using Cons.prems by simp
  then have one: "merge_one t r = Inr ?r1" and l1: "length ?r1 = length r"
    by (simp_all add: merge_one_def)
  have "\<forall>t \<in> set ts. length ?r1 \<le> length (counts t)" using Cons.prems l1 by simp
  from Cons.IH [OF this] obtain r' where r': "merge_loop ts ?r1 = Inr r'"
    "length r' = length ?r1" "\<forall>i < length ?r1. r' ! i = ?r1 ! i + sum_list (map (\<lambda>t. counts t ! i) ts)"
    by blast
  have "r' ! i = r ! i + sum_list (map (\<lambda>t. counts t ! i) (t # ts))" if i: "i < length r" for i
  proof -
    have a: "?r1 ! i = r ! i + counts t ! i" using i len by simp
    have "i < length ?r1" using i l1 by simp
    from r'(3) [rule_format, OF this]
    have "r' ! i = ?r1 ! i + sum_list (map (\<lambda>t. counts t ! i) ts)" .
    then show ?thesis unfolding a by (simp add: add.assoc)
  qed
  moreover have "merge_loop (t # ts) r = Inr r'" using one r'(1) by simp
  moreover have "length r' = length r" using r'(2) l1 by simp
  ultimately show ?case by blast
qed

text \<open>
  C6.  For a non-empty list of threads of one side length \<open>S\<close>, each with an
  \<open>S * S\<close> histogram, \<open>merge_results\<close> returns the histogram whose every cell is
  the sum (in \<open>std::uint64_t\<close>) of that cell over all threads; any reordering of the
  threads gives the same histogram, and all-zero inputs give the all-zero histogram.
\<close>

theorem merge_results_sum:
  assumes "threads \<noteq> []"
    and "\<forall>t \<in> set threads. size' t = S \<and> length (counts t) = S * S"
    and "S * S < 2 ^ 64"
  shows "\<exists>result. merge_results threads = Inr result \<and> length result = S * S \<and>
           (\<forall>i < S * S. result ! i = sum_list (map (\<lambda>t. counts t ! i) threads)) \<and>
           (\<forall>threads'. mset threads' = mset threads \<longrightarrow> merge_results threads' = Inr result) \<and>
           ((\<forall>t \<in> set threads. \<forall>i < S * S. counts t ! i = 0) \<longrightarrow> result = replicate (S * S) 0)"
proof -
  have u: "u64 (int S * int S) = S * S"
    using assms(3) by (simp add: u64_def flip: of_nat_mult) 
  have run: "\<exists>r. merge_results ts = Inr r \<and> length r = S * S \<and>
           (\<forall>i < S * S. r ! i = sum_list (map (\<lambda>t. counts t ! i) ts))"
    if ne: "ts \<noteq> []" and all: "\<forall>t \<in> set ts. size' t = S \<and> length (counts t) = S * S" for ts
  proof -
    obtain front rest where ts: "ts = front # rest" using ne by (cases ts) auto
    have sz: "size' front = S" using all ts by simp
    have "\<forall>t \<in> set ts. length (replicate (S * S) (0::64 word)) \<le> length (counts t)"
      using all by simp
    from merge_loop_sum [OF this] obtain r where r: "merge_loop ts (replicate (S * S) 0) = Inr r"
      "length r = S * S" "\<forall>i < S * S. r ! i = 0 + sum_list (map (\<lambda>t. counts t ! i) ts)"
      by auto
    have "merge_results ts = merge_loop ts (replicate (S * S) 0)"
      using ts sz u by (simp add: merge_results_def)
    then show ?thesis using r by simp
  qed
  from run [OF assms(1,2)] obtain result where res: "merge_results threads = Inr result"
    "length result = S * S" "\<forall>i < S * S. result ! i = sum_list (map (\<lambda>t. counts t ! i) threads)"
    by blast
  have perm: "merge_results threads' = Inr result" if m: "mset threads' = mset threads" for threads'
  proof -
    have s: "set threads' = set threads" using m by (rule mset_eq_setD)
    have ne: "threads' \<noteq> []" using m assms(1) by auto
    from run [OF ne] s assms(2) obtain r where r: "merge_results threads' = Inr r"
      "length r = S * S" "\<forall>i < S * S. r ! i = sum_list (map (\<lambda>t. counts t ! i) threads')"
      by auto
    have "r ! i = result ! i" if "i < S * S" for i
    proof -
      have "sum_mset (mset (map (\<lambda>t. counts t ! i) threads')) =
            sum_mset (mset (map (\<lambda>t. counts t ! i) threads))"
        by (simp add: m)
      then have "sum_list (map (\<lambda>t. counts t ! i) threads') = sum_list (map (\<lambda>t. counts t ! i) threads)"
        by (simp only: sum_mset_sum_list)
      then show ?thesis using r(3) res(3) that by simp
    qed
    then have "r = result" using r(2) res(2) by (simp add: nth_equalityI)
    then show ?thesis using r(1) by simp
  qed
  have zero: "result = replicate (S * S) 0" if z: "\<forall>t \<in> set threads. \<forall>i < S * S. counts t ! i = 0"
  proof (rule nth_equalityI)
    show "length result = length (replicate (S * S) (0::64 word))" using res(2) by simp
  next
    fix i assume "i < length result"
    then have i: "i < S * S" using res(2) by simp
    have "sum_list (map (\<lambda>t. counts t ! i) threads) = 0"
      using z i by (intro sum_list_map_zero) simp
    then show "result ! i = replicate (S * S) 0 ! i" using res(3) i by simp
  qed
  show ?thesis
  proof (intro exI [of _ result] conjI allI impI)
    show "merge_results threads = Inr result" by (rule res(1))
    show "length result = S * S" by (rule res(2))
    show "i < S * S \<Longrightarrow> result ! i = sum_list (map (\<lambda>t. counts t ! i) threads)" for i
      using res(3) by simp
    show "mset threads' = mset threads \<Longrightarrow> merge_results threads' = Inr result" for threads'
      by (rule perm)
    show "\<forall>t \<in> set threads. \<forall>i < S * S. counts t ! i = 0 \<Longrightarrow> result = replicate (S * S) 0"
      by (rule zero)
  qed
qed

theorem merge_results_sum_witness:
  "[\<lparr>size' = 2, max_iter = 3, counts = [1, 2, 3, 4], p_uniform = 1, good_points = [], point_radius = 1, progress = 5\<rparr>,
    \<lparr>size' = 2, max_iter = 3, counts = [10, 20, 30, 40], p_uniform = 1, good_points = [], point_radius = 1, progress = 5\<rparr>] \<noteq> [] \<and>
   (2::nat) * 2 < 2 ^ 64 \<and>
   (\<exists>result.
      merge_results
        [\<lparr>size' = 2, max_iter = 3, counts = [1, 2, 3, 4], p_uniform = 1, good_points = [], point_radius = 1, progress = 5\<rparr>,
         \<lparr>size' = 2, max_iter = 3, counts = [10, 20, 30, 40], p_uniform = 1, good_points = [], point_radius = 1, progress = 5\<rparr>]
        = Inr result \<and> length result = 2 * 2 \<and> result ! 3 = 44)"
proof -
  let ?t1 = "\<lparr>size' = 2, max_iter = 3, counts = [1, 2, 3, 4], p_uniform = 1, good_points = [], point_radius = 1, progress = 5\<rparr>"
  let ?t2 = "\<lparr>size' = 2, max_iter = 3, counts = [10, 20, 30, 40], p_uniform = 1, good_points = [], point_radius = 1, progress = 5\<rparr>"
  have h1: "[?t1, ?t2] \<noteq> []" by simp
  have h2: "\<forall>t \<in> set [?t1, ?t2]. size' t = 2 \<and> length (counts t) = 2 * 2" by simp
  have h3: "(2::nat) * 2 < 2 ^ 64" by simp
  from merge_results_sum [OF h1 h2 h3] obtain result where
    r: "merge_results [?t1, ?t2] = Inr result" "length result = 2 * 2"
    "\<forall>i < 2 * 2. result ! i = sum_list (map (\<lambda>t. counts t ! i) [?t1, ?t2])"
    by blast
  from r(3) have "result ! 3 = 44" by simp
  with r(1,2) h1 h3 show ?thesis by blast
qed

section \<open>Index arithmetic\<close>

lemma u64_of_nat: "n < 2 ^ 64 \<Longrightarrow> u64 (int n) = n"
  by (simp add: u64_def)







lemma cell_index_bound:
  assumes "x < S" "y < S"
  shows "y * S + x < S * (S::nat)"
proof -
  have "y * S + x < y * S + S" using assms(1) by simp
  also have "\<dots> = Suc y * S" by simp
  also have "\<dots> \<le> S * S" using assms(2) by (metis Suc_leI mult_le_mono1)
  finally show ?thesis .
qed

lemma side_square_bound: "S < 2 ^ 32 \<Longrightarrow> S * S < (2::nat) ^ 64"
proof -
  assume a: "S < 2 ^ 32"
  have "S * S < 2 ^ 32 * 2 ^ 32" using a by (intro mult_strict_mono) simp_all
  also have "\<dots> = (2::nat) ^ 64" by (simp flip: power_add)
  finally show ?thesis .
qed



lemma u64_cell_index:
  assumes "S < 2 ^ 32" "x < S" "y < S"
  shows "u64 (int y * int S + int x) = y * S + x"
proof -
  have "y * S + x < S * S" using assms(2,3) by (rule cell_index_bound)
  also have "\<dots> < 2 ^ 64" using assms(1) by (rule side_square_bound)
  finally have "u64 (int (y * S + x)) = y * S + x" by (rule u64_of_nat)
  then show ?thesis by simp
qed


section \<open>Properties of the histogram update\<close>

lemma sample_point_escaping:
  assumes "\<not> cnorm (fst (orbit_points M c (0, 0) [])) < 4"
  shows "sample_point S M cs c = plot_points S cs (snd (orbit_points M c (0, 0) []))"
  using assms by (cases "orbit_points M c (0, 0) []") (simp add: sample_point_def)




section \<open>Properties of the good-point collection\<close>









section \<open>Properties of the progress counter\<close>

lemma u64_Suc: "k + 1 < 2 ^ 64 \<Longrightarrow> u64 (int k + 1) = k + 1"
  by (simp add: u64_def nat_add_distrib)

lemma sample_iter_progress:
  assumes "k + 1 < 2 ^ 64" and "sample_iter G k (eng, u) = Inr (eng', u')"
  shows "progress u' = (if k mod 1000 = 0 then k + 1 else progress u)"
  using assms(2)
  by (auto simp: sample_iter_def Let_def u64_Suc [OF assms(1)] split: sum.splits prod.splits if_splits)

lemma for_loop_prefix:
  assumes "for_loop [0..<n] body s = Inr s'" and "k \<le> n"
  shows "\<exists>u. for_loop [0..<k] body s = Inr u"
proof -
  have "[0..<n] = [0..<k] @ [k..<n]" using assms(2) by (metis le0 upt_add_eq_append le_add_diff_inverse)
  then have "for_loop ([0..<k] @ [k..<n]) body s = Inr s'" using assms(1) by simp
  then show ?thesis by (auto simp: for_loop_append split: sum.splits)
qed

lemma sample_state_Suc:
  "sample_state G rd t (Suc k) =
     (case sample_state G rd t k of Inl e \<Rightarrow> Inl e | Inr s \<Rightarrow> sample_iter G k s)"
  unfolding sample_state_def by (rule for_loop_upt_Suc)

lemma stride_value_Suc:
  "1000 * (Suc k div 1000) + 1 = (if Suc k mod 1000 = 0 then Suc k + 1 else 1000 * (k div 1000) + 1)"
proof (cases "Suc k mod 1000 = 0")
  case True
  then have "1000 * (Suc k div 1000) = Suc k" by (metis mult_div_mod_eq add.right_neutral)
  then show ?thesis using True by simp
next
  case False
  then show ?thesis by (simp add: div_Suc)
qed

lemma sample_state_progress:
  assumes "n < 2 ^ 64" and "k < n" and "sample_state G rd t (Suc k) = Inr (eng, u)"
  shows "progress u = 1000 * (k div 1000) + 1"
  using assms(2,3)
proof (induction k arbitrary: eng u)
  case 0
  have "sample_state G rd t 0 = Inr (seeded_engine G rd, t)" by (simp add: sample_state_def)
  with "0.prems"(2) have "sample_iter G 0 (seeded_engine G rd, t) = Inr (eng, u)"
    by (simp add: sample_state_Suc)
  from sample_iter_progress [OF _ this] show ?case by simp
next
  case (Suc k)
  from Suc.prems(2) obtain e1 u1 where
    prev: "sample_state G rd t (Suc k) = Inr (e1, u1)"
    and step: "sample_iter G (Suc k) (e1, u1) = Inr (eng, u)"
    by (auto simp: sample_state_Suc [of G rd t "Suc k"] split: sum.splits)
  have "k < n" using Suc.prems(1) by simp
  from Suc.IH [OF this prev] have ih: "progress u1 = 1000 * (k div 1000) + 1" .
  have "Suc k + 1 < 2 ^ 64" using Suc.prems(1) assms(1) by simp
  from sample_iter_progress [OF this step]
  have "progress u = (if Suc k mod 1000 = 0 then Suc k + 1 else progress u1)" .
  then show ?case unfolding ih by (simp only: stride_value_Suc)
qed

lemma stride_value_mono: "j \<le> k \<Longrightarrow> 1000 * (j div 1000) + 1 \<le> 1000 * (k div 1000) + (1::nat)"
  by (simp add: div_le_mono)

lemma stride_value_le: "1000 * (k div 1000) + 1 \<le> Suc k"
  by simp

text \<open>
  C8.  In a run of \<open>sample(n)\<close> that returns, every iteration \<open>k < n\<close> of the loop
  takes place, and the counter \<open>progress\<close> after it is \<open>k + 1\<close> if \<open>k\<close> is a multiple
  of 1000 and otherwise what it was before the iteration: it is stored once per
  thousand samples, not at every sample.  Its value after iteration \<open>k\<close> is
  \<open>1000 * (k div 1000) + 1\<close>, at most \<open>n\<close> and non-decreasing from one iteration to
  any later one, and on return the counter is \<open>n\<close>.
\<close>

theorem progress_counter:
  assumes "n < 2 ^ 64" and "sample G rd t n = Inr t'"
  shows "progress t' = n \<and>
         (\<forall>k < n. \<exists>eng u eng' u'.
             sample_state G rd t k = Inr (eng, u) \<and>
             sample_iter G k (eng, u) = Inr (eng', u') \<and>
             sample_state G rd t (Suc k) = Inr (eng', u') \<and>
             progress u' = (if k mod 1000 = 0 then k + 1 else progress u) \<and>
             progress u' = 1000 * (k div 1000) + 1 \<and> progress u' \<le> n) \<and>
         (\<forall>j k. j \<le> k \<and> k < n \<longrightarrow>
             (\<exists>e1 u1 e2 u2.
                sample_state G rd t (Suc j) = Inr (e1, u1) \<and>
                sample_state G rd t (Suc k) = Inr (e2, u2) \<and>
                progress u1 \<le> progress u2))"
proof -
  from assms(2) obtain engn un where
    final: "sample_state G rd t n = Inr (engn, un)" and t': "t' = un\<lparr>progress := n\<rparr>"
    by (auto simp: sample_def split: if_splits sum.splits prod.splits)
  have prefix: "\<exists>e u. sample_state G rd t k = Inr (e, u)" if "k \<le> n" for k
    using for_loop_prefix [OF final [unfolded sample_state_def] that]
    by (auto simp: sample_state_def)
  have step: "\<exists>eng u eng' u'.
             sample_state G rd t k = Inr (eng, u) \<and>
             sample_iter G k (eng, u) = Inr (eng', u') \<and>
             sample_state G rd t (Suc k) = Inr (eng', u') \<and>
             progress u' = (if k mod 1000 = 0 then k + 1 else progress u) \<and>
             progress u' = 1000 * (k div 1000) + 1 \<and> progress u' \<le> n" if k: "k < n" for k
  proof -
    from prefix [of k] k obtain eng u where s0: "sample_state G rd t k = Inr (eng, u)" by auto
    from prefix [of "Suc k"] k obtain eng' u' where s1: "sample_state G rd t (Suc k) = Inr (eng', u')"
      by auto
    have it: "sample_iter G k (eng, u) = Inr (eng', u')"
      using s1 s0 by (simp add: sample_state_Suc)
    have "k + 1 < 2 ^ 64" using k assms(1) by simp
    from sample_iter_progress [OF this it]
    have p1: "progress u' = (if k mod 1000 = 0 then k + 1 else progress u)" .
    have p2: "progress u' = 1000 * (k div 1000) + 1"
      using assms(1) k s1 by (rule sample_state_progress)
    have "1000 * (k div 1000) + 1 \<le> Suc k" by (rule stride_value_le)
    then have p3: "progress u' \<le> n" using p2 k by simp
    show ?thesis using s0 it s1 p1 p2 p3 by blast
  qed
  have mono: "\<exists>e1 u1 e2 u2.
                sample_state G rd t (Suc j) = Inr (e1, u1) \<and>
                sample_state G rd t (Suc k) = Inr (e2, u2) \<and>
                progress u1 \<le> progress u2" if jk: "j \<le> k \<and> k < n" for j k
  proof -
    have j: "j < n" and k: "k < n" using jk by simp_all
    from step [OF j] obtain e1 u1 where
      a: "sample_state G rd t (Suc j) = Inr (e1, u1)" "progress u1 = 1000 * (j div 1000) + 1"
      by blast
    from step [OF k] obtain e2 u2 where
      b: "sample_state G rd t (Suc k) = Inr (e2, u2)" "progress u2 = 1000 * (k div 1000) + 1"
      by blast
    have "progress u1 \<le> progress u2"
      unfolding a(2) b(2) using jk by (intro stride_value_mono) simp
    with a(1) b(1) show ?thesis by blast
  qed
  have "progress t' = n" using t' by simp
  then show ?thesis using step mono by blast
qed

theorem progress_counter_witness:
  "(2::nat) < 2 ^ 64 \<and>
   sample lcg_rng 7 \<lparr>size' = 2, max_iter = 2, counts = [0, 0, 0, 0], p_uniform = 1,
       good_points = [], point_radius = 1, progress = 0\<rparr> 2
     = Inr \<lparr>size' = 2, max_iter = 2, counts = [0, 0, 0, 0], p_uniform = 1,
       good_points = [], point_radius = 1, progress = 2\<rparr> \<and>
   (\<exists>eng u eng' u'.
      sample_state lcg_rng 7 \<lparr>size' = 2, max_iter = 2, counts = [0, 0, 0, 0], p_uniform = 1,
        good_points = [], point_radius = 1, progress = 0\<rparr> 1 = Inr (eng, u) \<and>
      sample_iter lcg_rng 1 (eng, u) = Inr (eng', u') \<and>
      progress u = 1 \<and> progress u' = 1)"
proof -
  let ?t = "\<lparr>size' = 2, max_iter = 2, counts = [0, 0, 0, 0], p_uniform = 1,
       good_points = [], point_radius = 1, progress = 0\<rparr>"
  have h1: "(2::nat) < 2 ^ 64" by simp
  have h2: "sample lcg_rng 7 ?t 2
     = Inr \<lparr>size' = 2, max_iter = 2, counts = [0, 0, 0, 0], p_uniform = 1,
       good_points = [], point_radius = 1, progress = 2\<rparr>"
    by code_simp
  from progress_counter [OF h1 h2]
  have "\<forall>k < 2. \<exists>eng u eng' u'.
             sample_state lcg_rng 7 ?t k = Inr (eng, u) \<and>
             sample_iter lcg_rng k (eng, u) = Inr (eng', u') \<and>
             sample_state lcg_rng 7 ?t (Suc k) = Inr (eng', u') \<and>
             progress u' = (if k mod 1000 = 0 then k + 1 else progress u) \<and>
             progress u' = 1000 * (k div 1000) + 1 \<and> progress u' \<le> 2"
    by blast
  then obtain eng u eng' u' where
    r: "sample_state lcg_rng 7 ?t 1 = Inr (eng, u)" "sample_iter lcg_rng 1 (eng, u) = Inr (eng', u')"
       "progress u' = (if (1::nat) mod 1000 = 0 then 1 + 1 else progress u)"
       "progress u' = 1000 * (1 div 1000) + 1"
    by (metis one_less_numeral_iff semiring_norm(76))
  have "progress u' = 1" using r(4) by simp
  moreover have "progress u = 1" using r(3) \<open>progress u' = 1\<close> by simp
  ultimately show ?thesis using h1 h2 r(1,2) by blast
qed

section \<open>Properties of the rasterizer\<close>

lemma jitter_engine_Suc:
  "jitter_engine G S (Suc k) =
     snd (uniform_real G (- (1 / 4) * (4 / of_nat S)) ((1 / 4) * (4 / of_nat S)) (jitter_engine G S k))"
  by (simp add: jitter_engine_def)

lemma mandel_cell_step:
  assumes "S < 2 ^ 32" and "x < S" and "y < S"
    and "length res = S * S" and "eng = jitter_engine G S (2 * (y * S + x))"
    and "\<forall>j < y * S + x. res ! j = (cnorm (mandel_orbit M (cell_point G S (j div S) (j mod S)) (0, 0)) < 4)"
    and "\<forall>j. y * S + x \<le> j \<and> j < S * S \<longrightarrow> \<not> res ! j"
  shows "\<exists>res' eng'. mandel_cell G S M y x (res, eng) = Inr (res', eng') \<and>
           length res' = S * S \<and> eng' = jitter_engine G S (2 * (y * S + Suc x)) \<and>
           (\<forall>j < y * S + Suc x.
              res' ! j = (cnorm (mandel_orbit M (cell_point G S (j div S) (j mod S)) (0, 0)) < 4)) \<and>
           (\<forall>j. y * S + Suc x \<le> j \<and> j < S * S \<longrightarrow> \<not> res' ! j)"
proof -
  let ?k = "y * S + x"
  let ?lo = "- (1 / 4) * (4 / of_nat S) :: rat" and ?hi = "(1 / 4) * (4 / of_nat S) :: rat"
  let ?e1 = "snd (uniform_real G ?lo ?hi eng)"
  let ?e2 = "snd (uniform_real G ?lo ?hi ?e1)"
  let ?c = "(lerp (- 2) 2 (of_nat x / of_nat S) + fst (uniform_real G ?lo ?hi eng),
             lerp (- 2) 2 (of_nat y / of_nat S) + fst (uniform_real G ?lo ?hi ?e1))"
  let ?inside = "cnorm (mandel_orbit M ?c (0, 0)) < 4"
  have k: "?k < S * S" using assms(2,3) by (rule cell_index_bound)
  have dm: "?k div S = y" "?k mod S = x" using assms(2) by simp_all
  have c: "cell_point G S y x = ?c"
    by (simp add: cell_point_def Let_def case_prod_beta assms(5))
  have e2: "?e2 = jitter_engine G S (2 * (y * S + Suc x))"
  proof -
    have "2 * (y * S + Suc x) = Suc (Suc (2 * ?k))" by simp
    then show ?thesis by (simp only: jitter_engine_Suc assms(5))
  qed
  have ix: "u64 (int y * int S + int x) = ?k" using assms(1,2,3) by (rule u64_cell_index)
  have cell: "mandel_cell G S M y x (res, eng) =
      (if ?inside then Inr (res[?k := True], ?e2) else Inr (res, ?e2))"
    using k assms(4) by (simp add: mandel_cell_def Let_def case_prod_beta ix store_def)
  let ?res' = "if ?inside then res[?k := True] else res"
  have run: "mandel_cell G S M y x (res, eng) = Inr (?res', ?e2)" using cell by simp
  have len: "length ?res' = S * S" using assms(4) by simp
  have at_k: "?res' ! ?k = ?inside" using k assms(4,7) by simp
  have below: "?res' ! j = (cnorm (mandel_orbit M (cell_point G S (j div S) (j mod S)) (0, 0)) < 4)"
    if "j < y * S + Suc x" for j
  proof (cases "j = ?k")
    case True
    then show ?thesis using at_k c dm by simp
  next
    case False
    then have "j < ?k" using that by simp
    then show ?thesis using assms(6) False by simp
  qed
  have above: "\<not> ?res' ! j" if "y * S + Suc x \<le> j \<and> j < S * S" for j
  proof -
    have "j \<noteq> ?k" "?k \<le> j" using that by simp_all
    then show ?thesis using assms(7) that by simp
  qed
  show ?thesis using run len e2 below above by blast
qed

lemma mandel_cell_inv:
  assumes "S < 2 ^ 32" and "x < S" and "y < S" and "raster_inv G S M (y * S + x) s"
  shows "\<exists>s'. mandel_cell G S M y x s = Inr s' \<and> raster_inv G S M (y * S + Suc x) s'"
proof -
  obtain res eng where s: "s = (res, eng)" by (cases s) auto
  from assms(4) have a: "length res = S * S" "eng = jitter_engine G S (2 * (y * S + x))"
    "\<forall>j < y * S + x. res ! j = (cnorm (mandel_orbit M (cell_point G S (j div S) (j mod S)) (0, 0)) < 4)"
    "\<forall>j. y * S + x \<le> j \<and> j < S * S \<longrightarrow> \<not> res ! j"
    by (simp_all add: raster_inv_def s)
  from mandel_cell_step [OF assms(1,2,3) a] obtain res' eng' where
    "mandel_cell G S M y x (res, eng) = Inr (res', eng')" "raster_inv G S M (y * S + Suc x) (res', eng')"
    unfolding raster_inv_def fst_conv snd_conv by blast
  then show ?thesis using s by blast
qed

lemma mandel_row_inv:
  assumes "S < 2 ^ 32" and "y < S" and "raster_inv G S M (y * S) s"
  shows "\<exists>s'. for_loop [0..<S] (mandel_cell G S M y) s = Inr s' \<and> raster_inv G S M (Suc y * S) s'"
proof -
  have "\<exists>s'. for_loop [0..<S] (mandel_cell G S M y) s = Inr s' \<and>
          raster_inv G S M (y * S + S) s'"
  proof (rule for_loop_total [where P = "\<lambda>x u. raster_inv G S M (y * S + x) u"])
    show "raster_inv G S M (y * S + 0) s" using assms(3) by simp
  next
    fix x u
    assume "x < S" and "raster_inv G S M (y * S + x) u"
    with assms(1,2) show "\<exists>u'. mandel_cell G S M y x u = Inr u' \<and> raster_inv G S M (y * S + Suc x) u'"
      by (intro mandel_cell_inv)
  qed
  then show ?thesis by (simp add: add.commute)
qed

lemma binary_mandelbrot_inv:
  assumes "S < 2 ^ 32"
  shows "\<exists>res eng. for_loop [0..<S] (\<lambda>y. for_loop [0..<S] (mandel_cell G S M y))
             (replicate (u64 (int S * int S)) False, default_engine G) = Inr (res, eng) \<and>
           raster_inv G S M (S * S) (res, eng)"
proof -
  have sq: "u64 (int S * int S) = S * S"
    using u64_of_nat [OF side_square_bound [OF assms]] by simp
  have "\<exists>s'. for_loop [0..<S] (\<lambda>y. for_loop [0..<S] (mandel_cell G S M y))
             (replicate (S * S) False, default_engine G) = Inr s' \<and> raster_inv G S M (S * S) s'"
  proof (rule for_loop_total [where P = "\<lambda>y u. raster_inv G S M (y * S) u"])
    show "raster_inv G S M (0 * S) (replicate (S * S) False, default_engine G)"
      by (simp add: raster_inv_def jitter_engine_def)
  next
    fix y u
    assume "y < S" and "raster_inv G S M (y * S) u"
    with assms show "\<exists>u'. for_loop [0..<S] (mandel_cell G S M y) u = Inr u' \<and>
                           raster_inv G S M (Suc y * S) u'"
      by (intro mandel_row_inv)
  qed
  then show ?thesis unfolding sq by auto
qed

lemma binary_mandelbrot_eq:
  assumes "S < 2 ^ 32"
  shows "binary_mandelbrot G rd S M =
           Inr (map (\<lambda>j. cnorm (mandel_orbit M (cell_point G S (j div S) (j mod S)) (0, 0)) < 4)
                  [0..<S * S])"
proof -
  from binary_mandelbrot_inv [OF assms, of G M] obtain res eng where
    run: "for_loop [0..<S] (\<lambda>y. for_loop [0..<S] (mandel_cell G S M y))
             (replicate (u64 (int S * int S)) False, default_engine G) = Inr (res, eng)"
    and inv: "raster_inv G S M (S * S) (res, eng)"
    by blast
  have len: "length res = S * S"
    and cells: "\<forall>j < S * S. res ! j = (cnorm (mandel_orbit M (cell_point G S (j div S) (j mod S)) (0, 0)) < 4)"
    using inv by (simp_all add: raster_inv_def)
  have "res = map (\<lambda>j. cnorm (mandel_orbit M (cell_point G S (j div S) (j mod S)) (0, 0)) < 4) [0..<S * S]"
    using len cells by (intro nth_equalityI) simp_all
  then show ?thesis using run by (simp add: binary_mandelbrot_def)
qed

text \<open>
  C7.  For a side length \<open>S\<close> below \<open>2^32\<close>, any iteration cap \<open>M\<close> and any cell
  \<open>(x, y)\<close> of the grid, the rasterizer returns a bitmap of \<open>S * S\<close> cells whose cell
  \<open>y * S + x\<close> is true exactly when the orbit of the cell's jittered point, iterated
  from 0 while \<open>norm(z) < 4\<close> and fewer than \<open>M\<close> steps are done, ends with
  \<open>norm(z) < 4\<close>: the bitmap stores "did not escape".
\<close>

theorem bitmap_cell_is_negated_escape:
  assumes "S < 2 ^ 32" and "x < S" and "y < S"
  shows "\<exists>result. binary_mandelbrot G rd S M = Inr result \<and> length result = S * S \<and>
           result ! (y * S + x) = (cnorm (mandel_orbit M (cell_point G S y x) (0, 0)) < 4)"
proof -
  let ?bm = "map (\<lambda>j. cnorm (mandel_orbit M (cell_point G S (j div S) (j mod S)) (0, 0)) < 4) [0..<S * S]"
  have run: "binary_mandelbrot G rd S M = Inr ?bm" using assms(1) by (rule binary_mandelbrot_eq)
  have k: "y * S + x < S * S" using assms(2,3) by (rule cell_index_bound)
  have dm: "(y * S + x) div S = y" "(y * S + x) mod S = x" using assms(2) by simp_all
  have "?bm ! (y * S + x) = (cnorm (mandel_orbit M (cell_point G S y x) (0, 0)) < 4)"
    using k assms(2) by simp
  then show ?thesis using run by simp
qed

theorem bitmap_cell_is_negated_escape_witness:
  "(2::nat) < 2 ^ 32 \<and> (1::nat) < 2 \<and>
   binary_mandelbrot lcg_rng 0 2 3 = Inr [False, False, False, True] \<and>
   cell_point lcg_rng 2 1 1 = (3 / 8, 1 / 16) \<and>
   [False, False, False, True] ! (1 * 2 + 1) =
     (cnorm (mandel_orbit 3 (cell_point lcg_rng 2 1 1) (0, 0)) < 4)"
proof -
  have h1: "(2::nat) < 2 ^ 32" by simp
  have h2: "(1::nat) < 2" by simp
  have ev: "binary_mandelbrot lcg_rng 0 2 3 = Inr [False, False, False, True]" by code_simp
  have cp: "cell_point lcg_rng 2 1 1 = (3 / 8, 1 / 16)" by code_simp
  from bitmap_cell_is_negated_escape [OF h1 h2 h2, of lcg_rng 0 3] obtain result where
    r: "binary_mandelbrot lcg_rng 0 2 3 = Inr result"
       "result ! (1 * 2 + 1) = (cnorm (mandel_orbit 3 (cell_point lcg_rng 2 1 1) (0, 0)) < 4)"
    by blast
  from r(1) ev have "result = [False, False, False, True]" by simp
  with r(2) have "[False, False, False, True] ! (1 * 2 + 1) =
     (cnorm (mandel_orbit 3 (cell_point lcg_rng 2 1 1) (0, 0)) < 4)" by simp
  with h1 h2 ev cp show ?thesis by blast
qed

text \<open>
  C10.  The jitter of the rasterizer is drawn from a default-constructed engine: the
  stream starts in the state \<open>default_engine\<close>, cell \<open>j\<close> (row by row) takes the draws
  \<open>2 j\<close> and \<open>2 j + 1\<close> of that stream, and the whole bitmap is the escape test of the
  points so jittered.  The value of the random device enters nowhere, so two calls
  with the same side length and iteration cap return the same bitmap.
\<close>

theorem rasterizer_fixed_by_default_engine:
  assumes "S < 2 ^ 32"
  shows "jitter_engine G S 0 = default_engine G \<and>
         binary_mandelbrot G rd S M =
           Inr (map (\<lambda>j. cnorm (mandel_orbit M (cell_point G S (j div S) (j mod S)) (0, 0)) < 4)
                  [0..<S * S]) \<and>
         binary_mandelbrot G rd' S M = binary_mandelbrot G rd S M"
proof -
  have "jitter_engine G S 0 = default_engine G" by (simp add: jitter_engine_def)
  moreover note binary_mandelbrot_eq [OF assms, of G rd M]
  moreover have "binary_mandelbrot G rd' S M = binary_mandelbrot G rd S M"
    by (simp only: binary_mandelbrot_eq [OF assms])
  ultimately show ?thesis by blast
qed

theorem rasterizer_fixed_by_default_engine_witness:
  "(2::nat) < 2 ^ 32 \<and>
   jitter_engine lcg_rng 2 0 = default_engine lcg_rng \<and>
   binary_mandelbrot lcg_rng 0 2 3 =
     Inr (map (\<lambda>j. cnorm (mandel_orbit 3 (cell_point lcg_rng 2 (j div 2) (j mod 2)) (0, 0)) < 4)
            [0..<2 * 2]) \<and>
   binary_mandelbrot lcg_rng 12345 2 3 = binary_mandelbrot lcg_rng 0 2 3"
proof -
  have h1: "(2::nat) < 2 ^ 32" by simp
  from rasterizer_fixed_by_default_engine [OF h1, of lcg_rng 0 3 12345] h1
  show ?thesis by blast
qed

end
